theory Spec2Isabelle
  imports Complex_Main "HOL-Library.AList"
begin

section \<open>Python builtins used by the service\<close>

text \<open>
  The service (src/main.py) is written in Python. Its floats are IEEE doubles. A finite
  double is a rational number, and an arithmetic operation on doubles returns the exact
  result rounded to the nearest double, a tie going to the even significand. \<open>fl\<close> is
  that rounding for the normal range (53 significant bits); overflow and subnormal
  numbers do not occur for the times and percentages of this program.
  \<open>int_bits p\<close> is the bit length of a positive integer and \<open>exponent x\<close> the binary
  exponent \<open>e\<close> of a positive rational, \<open>2^e \<le> x < 2^(e+1)\<close>.
\<close>

definition round_half_even :: "rat \<Rightarrow> int" where
  "round_half_even x =
     (let f = \<lfloor>x\<rfloor>; d = x - of_int f
      in if d < 1 / 2 then f
         else if 1 / 2 < d then f + 1
         else if even f then f else f + 1)"

function int_bits :: "int \<Rightarrow> int" where
  "int_bits p = (if p \<le> 0 then 0 else 1 + int_bits (p div 2))"
  by pat_completeness auto
termination
  by (relation "measure nat") auto

definition exponent :: "rat \<Rightarrow> int" where
  "exponent x =
     (let (p, q) = quotient_of x;
          d = int_bits p - int_bits q
      in if 2 powi d \<le> x then d else d - 1)"

definition fl :: "rat \<Rightarrow> rat" where
  "fl x =
     (if x = 0 then 0
      else let a = \<bar>x\<bar>; u = 2 powi (exponent a - 52)
           in sgn x * (of_int (round_half_even (a / u)) * u))"

text \<open>
  \<open>round(x, n)\<close> on a double rounds the exact value of \<open>x\<close> to \<open>n\<close> decimals, an exact
  tie going to the even neighbour, and returns the double nearest to that decimal, which
  prints as that decimal. Nothing computes with a rounded value afterwards, so the model
  keeps the decimal itself.
\<close>

definition py_round :: "rat \<Rightarrow> nat \<Rightarrow> rat" where
  "py_round x n = of_int (round_half_even (x * 10 ^ n)) / 10 ^ n"

text \<open>\<open>int(x)\<close> on a float truncates towards zero.\<close>

definition py_int :: "rat \<Rightarrow> int" where
  "py_int x = (if 0 \<le> x then \<lfloor>x\<rfloor> else \<lceil>x\<rceil>)"

text \<open>\<open>str(n)\<close> on an integer: its decimal digits, with a minus sign when negative.\<close>

definition digit_char :: "int \<Rightarrow> char" where
  "digit_char d = ''0123456789'' ! nat d"

function str_digits :: "int \<Rightarrow> string" where
  "str_digits n =
     (if n < 10 then [digit_char n] else str_digits (n div 10) @ [digit_char (n mod 10)])"
  by pat_completeness auto
termination
  by (relation "measure nat") auto

definition str_int :: "int \<Rightarrow> string" where
  "str_int i = (if i < 0 then CHR ''-'' # str_digits (- i) else str_digits i)"

text \<open>\<open>s.startswith(p)\<close>.\<close>

definition startswith :: "string \<Rightarrow> string \<Rightarrow> bool" where
  "startswith s p = (take (length p) s = p)"

text \<open>
  The slice \<open>xs[i:]\<close>: a negative start counts from the end and is clamped at the
  beginning of the list, a start beyond the end gives the empty list.
\<close>

definition slice_from :: "'a list \<Rightarrow> int \<Rightarrow> 'a list" where
  "slice_from xs i =
     (let n = int (length xs);
          j = (if i < 0 then max 0 (i + n) else min i n)
      in drop (nat j) xs)"

section \<open>Data model\<close>

text \<open>
  A check result is the dict built by \<open>check_url_status\<close>; a monitor is the dict stored
  under its URL in the module-level \<open>monitors\<close>. The key \<open>"id"\<close> of a monitor dict is
  present only when some code has stored it, hence an option.
\<close>

record check =
  status :: string
  status_code :: "int option"
  response_time :: rat
  last_checked :: string
  error :: "string option"

record monitor =
  url :: string
  created_at :: string
  checks :: "check list"
  monitor_id :: "string option"

text \<open>
  \<open>monitors\<close> is a Python dict, which keeps insertion order: assigning to an existing
  key keeps its position, a new key goes to the end, \<open>del\<close> removes the entry. That is
  \<open>AList.update\<close> and \<open>AList.delete\<close> on an association list.
\<close>

type_synonym monitors = "(string \<times> monitor) list"

datatype failure = HTTPException nat string | Uncaught string

section \<open>The probe\<close>

text \<open>
  What the outbound GET does is outside the program: either a response with a status
  code arrives, or the request raises. \<open>except Exception\<close> catches every exception
  class that derives from \<open>Exception\<close> (all of httpx's timeout, connection, DNS and
  invalid-URL errors); a \<open>BaseException\<close> that does not (task cancellation, interpreter
  shutdown) is not caught and leaves the function.
\<close>

datatype get_outcome =
    Response int
  | RaisedException string
  | RaisedBaseException string

text \<open>
  \<open>start_time\<close> and \<open>end_time\<close> are the doubles that the two calls of \<open>time.time()\<close>
  return, \<open>checked_at\<close> the string of \<open>datetime.now().isoformat()\<close>.
\<close>

record probe_io =
  start_time :: rat
  outcome :: get_outcome
  end_time :: rat
  checked_at :: string

definition check_url_status :: "string \<Rightarrow> probe_io \<Rightarrow> failure + check" where
  "check_url_status u io =
     (case outcome io of
        Response code \<Rightarrow>
          Inr \<lparr>status = (if code < 400 then ''up'' else ''down''),
               status_code = Some code,
               response_time = py_round (fl (fl (end_time io - start_time io) * 1000)) 2,
               last_checked = checked_at io,
               error = None\<rparr>
      | RaisedException msg \<Rightarrow>
          Inr \<lparr>status = ''down'',
               status_code = None,
               response_time = py_round (fl (fl (end_time io - start_time io) * 1000)) 2,
               last_checked = checked_at io,
               error = Some msg\<rparr>
      | RaisedBaseException msg \<Rightarrow> Inl (Uncaught msg))"

section \<open>Uptime percentage\<close>

text \<open>The generator sum \<open>sum(1 for check in ... if check["status"] == "up")\<close>.\<close>

fun up_checks :: "check list \<Rightarrow> nat" where
  "up_checks [] = 0"
| "up_checks (c # cs) = (if status c = ''up'' then 1 + up_checks cs else up_checks cs)"

definition calculate_uptime_percentage :: "monitor \<Rightarrow> rat" where
  "calculate_uptime_percentage monitor_data =
     (if checks monitor_data = [] then 0
      else let total_checks = length (checks monitor_data);
               n_up = up_checks (checks monitor_data)
           in if total_checks > 0
              then py_round (fl (fl (of_nat n_up / of_nat total_checks) * 100)) 2
              else 0)"

section \<open>The monitor store and the request handlers\<close>

text \<open>
  Lines 147 to 149 of \<open>get_monitors\<close>: append the new check, then keep the last 100
  entries when there are more.
\<close>

definition append_check :: "check list \<Rightarrow> check \<Rightarrow> check list" where
  "append_check cs c =
     (let cs' = cs @ [c]
      in if length cs' > 100 then slice_from cs' (- 100) else cs')"

record monitor_response =
  mr_url :: string
  mr_status :: string
  mr_response_time :: "rat option"
  mr_status_code :: "int option"
  mr_last_checked :: string
  mr_uptime_percentage :: rat

datatype monitors_reply =
    Single monitor_response
  | Listing "monitor_response list" nat

text \<open>The loop of \<open>get_monitors\<close> over \<open>monitors.items()\<close>, in insertion order.\<close>

fun monitor_summaries :: "monitors \<Rightarrow> monitor_response list" where
  "monitor_summaries [] = []"
| "monitor_summaries ((monitor_url, monitor_data) # rest) =
     (if checks monitor_data \<noteq> []
      then (let latest_check = last (checks monitor_data)
            in \<lparr>mr_url = monitor_url,
                mr_status = status latest_check,
                mr_response_time = Some (response_time latest_check),
                mr_status_code = status_code latest_check,
                mr_last_checked = last_checked latest_check,
                mr_uptime_percentage = calculate_uptime_percentage monitor_data\<rparr>)
           # monitor_summaries rest
      else monitor_summaries rest)"

definition valid_url :: "string \<Rightarrow> bool" where
  "valid_url u = (startswith u ''http://'' \<or> startswith u ''https://'')"

text \<open>
  The part of \<open>get_monitors\<close> after the awaited probe (lines 139 to 160). It contains no
  \<open>await\<close>, so it runs without interleaving. \<open>now\<close> is the value of
  \<open>datetime.now().isoformat()\<close> read when the record is created.
\<close>

definition store_check :: "string \<Rightarrow> check \<Rightarrow> string \<Rightarrow> monitors \<Rightarrow> monitor_response \<times> monitors" where
  "store_check u check_result now ms =
     (let m = (case map_of ms u of
                 None \<Rightarrow> \<lparr>url = u, created_at = now, checks = [], monitor_id = None\<rparr>
               | Some m0 \<Rightarrow> m0);
          m' = m\<lparr>checks := append_check (checks m) check_result\<rparr>
      in (\<lparr>mr_url = u,
           mr_status = status check_result,
           mr_response_time = Some (response_time check_result),
           mr_status_code = status_code check_result,
           mr_last_checked = last_checked check_result,
           mr_uptime_percentage = calculate_uptime_percentage m'\<rparr>,
          AList.update u m' ms))"

text \<open>
  \<open>if url:\<close> is false for \<open>None\<close> and for the empty string; both list all monitors.
\<close>

definition get_monitors ::
  "string option \<Rightarrow> probe_io \<Rightarrow> string \<Rightarrow> monitors \<Rightarrow> (failure + monitors_reply) \<times> monitors" where
  "get_monitors url_param io now ms =
     (case url_param of
        Some u \<Rightarrow>
          if u \<noteq> [] then
            (if valid_url u then
               (case check_url_status u io of
                  Inl e \<Rightarrow> (Inl e, ms)
                | Inr check_result \<Rightarrow>
                    (let (r, ms') = store_check u check_result now ms
                     in (Inr (Single r), ms')))
             else (Inl (HTTPException 400 ''Invalid URL. Must start with http:// or https://''), ms))
          else (let result = monitor_summaries ms in (Inr (Listing result (length result)), ms))
      | None \<Rightarrow> (let result = monitor_summaries ms in (Inr (Listing result (length result)), ms)))"

record last_check =
  lc_timestamp :: string
  lc_status :: string
  lc_responseTime :: rat

record add_reply =
  ar_id :: string
  ar_url :: string
  ar_uptime :: rat
  ar_totalChecks :: nat
  ar_avgResponseTime :: rat
  ar_lastCheck :: last_check
  ar_isActive :: bool
  ar_message :: string

text \<open>
  The part of \<open>add_monitor_logic\<close> after the awaited probe (lines 191 to 214): it stores
  the record unconditionally. \<open>t\<close> is the value of \<open>time.time()\<close> read for the id.
\<close>

definition store_monitor :: "string \<Rightarrow> check \<Rightarrow> string \<Rightarrow> rat \<Rightarrow> monitors \<Rightarrow> add_reply \<times> monitors" where
  "store_monitor u check_result now t ms =
     (let new_id = str_int (py_int (fl (t * 1000)));
          m = \<lparr>url = u, created_at = now, checks = [check_result], monitor_id = Some new_id\<rparr>
      in (\<lparr>ar_id = new_id,
           ar_url = u,
           ar_uptime = 100,
           ar_totalChecks = 1,
           ar_avgResponseTime = response_time check_result,
           ar_lastCheck = \<lparr>lc_timestamp = last_checked check_result,
                           lc_status = status check_result,
                           lc_responseTime = response_time check_result\<rparr>,
           ar_isActive = True,
           ar_message = ''Monitor added for '' @ u\<rparr>,
          AList.update u m ms))"

definition add_monitor_logic ::
  "string \<Rightarrow> probe_io \<Rightarrow> string \<Rightarrow> rat \<Rightarrow> monitors \<Rightarrow> (failure + add_reply) \<times> monitors" where
  "add_monitor_logic u io now t ms =
     (if \<not> valid_url u
      then (Inl (HTTPException 400 ''Invalid URL. Must start with http:// or https://''), ms)
      else if map_of ms u \<noteq> None
      then (Inl (HTTPException 400 ''URL is already being monitored''), ms)
      else (case check_url_status u io of
              Inl e \<Rightarrow> (Inl e, ms)
            | Inr check_result \<Rightarrow>
                (let (r, ms') = store_monitor u check_result now t ms in (Inr r, ms'))))"

definition remove_monitor :: "string \<Rightarrow> monitors \<Rightarrow> (failure + string) \<times> monitors" where
  "remove_monitor u ms =
     (if map_of ms u = None
      then (Inl (HTTPException 404 ''Monitor not found''), ms)
      else (Inr (''Monitor removed for '' @ u), AList.delete u ms))"

definition remove_monitor_get :: "string \<Rightarrow> monitors \<Rightarrow> (failure + string) \<times> monitors" where
  "remove_monitor_get u ms =
     (if map_of ms u = None
      then (Inl (HTTPException 404 ''Monitor not found''), ms)
      else (Inr (''Monitor removed for '' @ u), AList.delete u ms))"

record history =
  h_url :: string
  h_checks :: "check list"
  h_total_checks :: nat
  h_uptime_percentage :: rat

text \<open>\<open>get_monitor_history\<close> only reads the store.\<close>

definition get_monitor_history :: "string \<Rightarrow> int \<Rightarrow> monitors \<Rightarrow> failure + history" where
  "get_monitor_history u limit ms =
     (case map_of ms u of
        None \<Rightarrow> Inl (HTTPException 404 ''Monitor not found'')
      | Some m \<Rightarrow>
          Inr \<lparr>h_url = u,
               h_checks = slice_from (checks m) (- limit),
               h_total_checks = length (checks m),
               h_uptime_percentage = calculate_uptime_percentage m\<rparr>)"

record up_entry =
  ue_url :: string
  ue_status :: string
  ue_response_time :: rat
  ue_last_checked :: string

record down_entry =
  de_url :: string
  de_status :: string
  de_response_time :: rat
  de_last_checked :: string
  de_error :: "string option"

record stats =
  total_monitors :: nat
  up_monitors :: nat
  down_monitors :: nat
  overall_uptime :: rat
  up_urls :: "up_entry list"
  down_urls :: "down_entry list"

text \<open>
  The loop of \<open>get_stats\<close>, with its four accumulators \<open>up_monitors\<close>, \<open>down_monitors\<close>,
  \<open>down_urls\<close> and \<open>up_urls\<close>.
\<close>

fun stats_loop ::
  "monitors \<Rightarrow> nat \<times> nat \<times> down_entry list \<times> up_entry list
     \<Rightarrow> nat \<times> nat \<times> down_entry list \<times> up_entry list" where
  "stats_loop [] acc = acc"
| "stats_loop ((u, monitor_data) # rest) (n_up, n_down, downs, ups) =
     (if checks monitor_data \<noteq> [] then
        (let latest_check = last (checks monitor_data);
             latest_status = status latest_check
         in if latest_status = ''up''
            then stats_loop rest
                   (n_up + 1, n_down, downs,
                    ups @ [\<lparr>ue_url = u, ue_status = latest_status,
                             ue_response_time = response_time latest_check,
                             ue_last_checked = last_checked latest_check\<rparr>])
            else stats_loop rest
                   (n_up, n_down + 1,
                    downs @ [\<lparr>de_url = u, de_status = latest_status,
                               de_response_time = response_time latest_check,
                               de_last_checked = last_checked latest_check,
                               de_error = error latest_check\<rparr>],
                    ups))
      else stats_loop rest (n_up, n_down, downs, ups))"

definition get_stats :: "monitors \<Rightarrow> stats" where
  "get_stats ms =
     (let n_total = length ms;
          (n_up, n_down, downs, ups) = stats_loop ms (0, 0, [], [])
      in \<lparr>total_monitors = n_total,
          up_monitors = n_up,
          down_monitors = n_down,
          overall_uptime =
            (if n_total > 0 then py_round (fl (fl (of_nat n_up / of_nat n_total) * 100)) 2 else 0),
          up_urls = ups,
          down_urls = downs\<rparr>)"

section \<open>Requests against the shared store\<close>

text \<open>
  Every endpoint but \<open>get_stats\<close> depends on \<open>verify_api_key\<close>, which the framework
  runs before the handler; when it raises, the handler body does not run.
\<close>

definition verify_api_key :: "string \<Rightarrow> string \<Rightarrow> failure + string" where
  "verify_api_key valid_api_key apikey =
     (if apikey \<noteq> valid_api_key
      then Inl (HTTPException 401 ''Invalid or expired api key.'')
      else Inr apikey)"

text \<open>
  The handlers are coroutines on one event loop: control passes to another request only
  at an \<open>await\<close>, and the only awaited call is the probe. In \<open>get_monitors\<close> the probe
  precedes every access to the store. In \<open>add_monitor_logic\<close> it sits between the
  duplicate test and the write, so the write may happen on a store that other requests
  have changed meanwhile: \<open>AddResumed\<close> is that second half on its own, for a URL that
  passed the validity test before the probe. Allowing it at any moment covers every
  interleaving (and more). \<open>root\<close> and \<open>list_all_endpoints\<close> do not touch the store.
\<close>

datatype request =
    GetMonitors string "string option" probe_io string
  | AddMonitor string string probe_io string rat
  | AddResumed string probe_io string rat
  | RemoveMonitor string string
  | RemoveMonitorGet string string
  | GetMonitorHistory string string int
  | GetStats
  | Root
  | ListAllEndpoints

fun step :: "string \<Rightarrow> monitors \<Rightarrow> request \<Rightarrow> monitors" where
  "step key ms (GetMonitors apikey url_param io now) =
     (case verify_api_key key apikey of
        Inl e \<Rightarrow> ms | Inr a \<Rightarrow> snd (get_monitors url_param io now ms))"
| "step key ms (AddMonitor apikey u io now t) =
     (case verify_api_key key apikey of
        Inl e \<Rightarrow> ms | Inr a \<Rightarrow> snd (add_monitor_logic u io now t ms))"
| "step key ms (AddResumed u io now t) =
     (if valid_url u
      then (case check_url_status u io of
              Inl e \<Rightarrow> ms
            | Inr check_result \<Rightarrow> snd (store_monitor u check_result now t ms))
      else ms)"
| "step key ms (RemoveMonitor apikey u) =
     (case verify_api_key key apikey of
        Inl e \<Rightarrow> ms | Inr a \<Rightarrow> snd (remove_monitor u ms))"
| "step key ms (RemoveMonitorGet apikey u) =
     (case verify_api_key key apikey of
        Inl e \<Rightarrow> ms | Inr a \<Rightarrow> snd (remove_monitor_get u ms))"
| "step key ms (GetMonitorHistory apikey u limit) = ms"
| "step key ms GetStats = ms"
| "step key ms Root = ms"
| "step key ms ListAllEndpoints = ms"

text \<open>The store starts empty (\<open>monitors = {}\<close>) and changes only through requests.\<close>

definition run :: "string \<Rightarrow> request list \<Rightarrow> monitors" where
  "run key reqs = foldl (step key) [] reqs"

section \<open>Notions used to state the properties\<close>

text \<open>
  What holds of every entry of a store that requests have built: the key is a URL that
  passed the scheme test, the record names its own key, and its history is neither
  empty nor longer than 100.
\<close>

definition entry_ok :: "string \<times> monitor \<Rightarrow> bool" where
  "entry_ok e = (valid_url (fst e) \<and> url (snd e) = fst e \<and>
                 checks (snd e) \<noteq> [] \<and> length (checks (snd e)) \<le> 100)"

definition checks_of :: "monitors \<Rightarrow> string \<Rightarrow> check list" where
  "checks_of ms u = (case map_of ms u of None \<Rightarrow> [] | Some m \<Rightarrow> checks m)"

text \<open>The last status of a monitor, and the entries \<open>get_stats\<close> lists for it.\<close>

definition last_up :: "string \<times> monitor \<Rightarrow> bool" where
  "last_up e = (checks (snd e) \<noteq> [] \<and> status (last (checks (snd e))) = ''up'')"

definition last_not_up :: "string \<times> monitor \<Rightarrow> bool" where
  "last_not_up e = (checks (snd e) \<noteq> [] \<and> status (last (checks (snd e))) \<noteq> ''up'')"

definition last_down :: "string \<times> monitor \<Rightarrow> bool" where
  "last_down e = (checks (snd e) \<noteq> [] \<and> status (last (checks (snd e))) = ''down'')"

definition up_entry_of :: "string \<times> monitor \<Rightarrow> up_entry" where
  "up_entry_of e =
     \<lparr>ue_url = fst e, ue_status = status (last (checks (snd e))),
      ue_response_time = response_time (last (checks (snd e))),
      ue_last_checked = last_checked (last (checks (snd e)))\<rparr>"

definition down_entry_of :: "string \<times> monitor \<Rightarrow> down_entry" where
  "down_entry_of e =
     \<lparr>de_url = fst e, de_status = status (last (checks (snd e))),
      de_response_time = response_time (last (checks (snd e))),
      de_last_checked = last_checked (last (checks (snd e))),
      de_error = error (last (checks (snd e)))\<rparr>"

section \<open>Concrete inputs\<close>

definition ex_key :: string where
  "ex_key = ''dabibanban''"

definition ex_io_up :: probe_io where
  "ex_io_up = \<lparr>start_time = 1704067200, outcome = Response 200,
               end_time = 1704067200 + 1 / 8, checked_at = ''2024-01-01T00:00:00''\<rparr>"

definition ex_io_timeout :: probe_io where
  "ex_io_timeout = \<lparr>start_time = 1704067260, outcome = RaisedException ''timed out'',
                    end_time = 1704067270, checked_at = ''2024-01-01T00:01:00''\<rparr>"

text \<open>One monitor, added explicitly and then probed once more through \<open>get_monitors\<close>.\<close>

definition ex_requests :: "request list" where
  "ex_requests =
     [AddMonitor ex_key ''http://a.test'' ex_io_up ''2024-01-01T00:00:00'' (1704067200 + 1 / 8),
      GetMonitors ex_key (Some ''http://a.test'') ex_io_timeout ''2024-01-01T00:01:00'']"

definition ex_store :: monitors where
  "ex_store = run ex_key ex_requests"

text \<open>101 check results in a row, numbered by their status code.\<close>

definition ex_checks :: "(check \<times> string) list" where
  "ex_checks =
     map (\<lambda>i. (\<lparr>status = ''up'', status_code = Some (int i), response_time = 1,
                  last_checked = ''2024-01-01T00:00:00'', error = None\<rparr>,
                ''2024-01-01T00:00:00'')) [0..<101]"

text \<open>Monitor A last up, monitor B last down, monitor C without history.\<close>

definition ex_fleet :: monitors where
  "ex_fleet =
     [(''http://a.test'',
       \<lparr>url = ''http://a.test'', created_at = ''2024-01-01T00:00:00'',
        checks = [\<lparr>status = ''up'', status_code = Some 200, response_time = 12,
                   last_checked = ''2024-01-01T00:00:00'', error = None\<rparr>],
        monitor_id = None\<rparr>),
      (''http://b.test'',
       \<lparr>url = ''http://b.test'', created_at = ''2024-01-01T00:00:00'',
        checks = [\<lparr>status = ''down'', status_code = Some 503, response_time = 7,
                   last_checked = ''2024-01-01T00:00:01'', error = None\<rparr>],
        monitor_id = None\<rparr>),
      (''http://c.test'',
       \<lparr>url = ''http://c.test'', created_at = ''2024-01-01T00:00:00'',
        checks = [], monitor_id = None\<rparr>)]"

text \<open>160 monitors with one check each; the first 23 are up, the other 137 down.\<close>

definition ex_fleet160 :: monitors where
  "ex_fleet160 =
     map (\<lambda>i. (''http://m'' @ str_int (int i) @ ''.test'',
               \<lparr>url = ''http://m'' @ str_int (int i) @ ''.test'',
                created_at = ''2024-01-01T00:00:00'',
                checks = [\<lparr>status = (if i < 23 then ''up'' else ''down''),
                           status_code = Some (if i < 23 then 200 else 503),
                           response_time = 125,
                           last_checked = ''2024-01-01T00:00:00'', error = None\<rparr>],
                monitor_id = None\<rparr>)) [0..<160]"

section \<open>Rounding to double precision\<close>

text \<open>
  The exponent is the right one, the rounding error of \<open>fl\<close> is at most half a unit in
  the last place, and a fraction \<open>m / 2^j\<close> with \<open>m\<close> below \<open>2^53\<close> is a double. For a
  quotient \<open>U / T\<close> with \<open>T\<close> at most 100 the code's \<open>round(U / T * 100, 2)\<close> is the
  exactly rounded percentage: away from a tie the error of the two float operations is
  far smaller than the distance to the nearest rounding boundary, and a tie only occurs
  when \<open>U / T\<close> is a multiple of \<open>1/32\<close>, where both operations are exact.
\<close>

declare int_bits.simps [simp del]

lemma int_bits_bounds:
  "0 < p \<Longrightarrow> 1 \<le> int_bits p \<and> 2 ^ nat (int_bits p - 1) \<le> p \<and> p < 2 ^ nat (int_bits p)"
proof (induction p rule: int_bits.induct)
  case (1 p)
  show ?case
  proof (cases "p = 1")
    case True
    have "int_bits 1 = 1" by (simp add: int_bits.simps[of 1] int_bits.simps[of 0])
    then show ?thesis using True by simp
  next
    case False
    with 1(2) have h: "0 < p div 2" by simp
    define b where "b = int_bits (p div 2)"
    have ih: "1 \<le> b" "2 ^ nat (b - 1) \<le> p div 2" "p div 2 < 2 ^ nat b"
      using 1(1)[OF _ h] 1(2) by (simp_all add: b_def)
    have e: "int_bits p = 1 + b" using 1(2) by (simp add: int_bits.simps[of p] b_def)
    have n: "nat (1 + b) = Suc (nat b)" "nat b = Suc (nat (b - 1))" using ih(1) by simp_all
    have "(2::int) ^ nat b = 2 * 2 ^ nat (b - 1)" by (subst n(2)) simp
    then have lo: "(2::int) ^ nat b \<le> p" using ih(2) by linarith
    have "p < 2 * 2 ^ nat b" using ih(3) by linarith
    then have hi: "p < 2 ^ nat (1 + b)" by (simp add: n(1))
    show ?thesis using ih(1) lo hi by (simp add: e)
  qed
qed

lemma pow2_le_of_int:
  assumes "0 \<le> b" and "2 ^ nat b \<le> p"
  shows "(2::rat) powi b \<le> of_int p"
proof -
  have "(of_int ((2::int) ^ nat b) :: rat) \<le> of_int p"
    using assms(2) by (simp only: of_int_le_iff)
  then show ?thesis using assms(1) by (simp add: power_int_def)
qed

lemma of_int_less_pow2:
  assumes "0 \<le> b" and "p < 2 ^ nat b"
  shows "of_int p < (2::rat) powi b"
proof -
  have "(of_int p :: rat) < of_int ((2::int) ^ nat b)"
    using assms(2) by (simp only: of_int_less_iff)
  then show ?thesis using assms(1) by (simp add: power_int_def)
qed

lemma exponent_bounds:
  assumes "0 < x"
  shows "2 powi (exponent x) \<le> x" and "x < 2 powi (exponent x + 1)"
proof -
  obtain p q where pq: "quotient_of x = (p, q)" by (cases "quotient_of x")
  have q: "0 < q" using pq by (rule quotient_of_denom_pos)
  have x: "x = of_int p / of_int q" using pq by (rule quotient_of_div)
  have p: "0 < p" using assms q by (simp add: x zero_less_divide_iff)
  define bp where "bp = int_bits p"
  define bq where "bq = int_bits q"
  have P: "1 \<le> bp" "2 ^ nat (bp - 1) \<le> p" "p < 2 ^ nat bp"
    using int_bits_bounds[OF p] by (simp_all add: bp_def)
  have Q: "1 \<le> bq" "2 ^ nat (bq - 1) \<le> q" "q < 2 ^ nat bq"
    using int_bits_bounds[OF q] by (simp_all add: bq_def)
  have Pr: "(2::rat) powi (bp - 1) \<le> of_int p" "of_int p < (2::rat) powi bp"
    using P pow2_le_of_int[of "bp - 1" p] of_int_less_pow2[of bp p] by simp_all
  have Qr: "(2::rat) powi (bq - 1) \<le> of_int q" "of_int q < (2::rat) powi bq"
    using Q pow2_le_of_int[of "bq - 1" q] of_int_less_pow2[of bq q] by simp_all
  have qr: "(0::rat) < of_int q" using q by simp
  have pr: "(0::rat) < of_int p" using p by simp
  have lo: "(2::rat) powi (bp - bq - 1) < x"
  proof -
    have "(2::rat) powi (bp - bq - 1) = 2 powi (bp - 1) / 2 powi bq"
      using power_int_diff[of "2::rat" "bp - 1" bq] by (simp add: algebra_simps)
    also have "\<dots> \<le> of_int p / 2 powi bq"
      using Pr(1) by (intro divide_right_mono) simp_all
    also have "\<dots> < of_int p / of_int q"
      using Qr(2) qr pr by (intro divide_strict_left_mono) simp_all
    finally show ?thesis by (simp add: x)
  qed
  have hi: "x < (2::rat) powi (bp - bq + 1)"
  proof -
    have "x = of_int p / of_int q" by (rule x)
    also have "\<dots> < 2 powi bp / of_int q"
      using Pr(2) qr by (intro divide_strict_right_mono) simp_all
    also have "\<dots> \<le> 2 powi bp / 2 powi (bq - 1)"
      using Qr(1) qr by (intro divide_left_mono) simp_all
    also have "\<dots> = (2::rat) powi (bp - bq + 1)"
      using power_int_diff[of "2::rat" bp "bq - 1"] by (simp add: algebra_simps)
    finally show ?thesis .
  qed
  have e: "exponent x = (if 2 powi (bp - bq) \<le> x then bp - bq else bp - bq - 1)"
    by (simp add: exponent_def pq bp_def bq_def)
  show "2 powi (exponent x) \<le> x"
  proof (cases "2 powi (bp - bq) \<le> x")
    case True then show ?thesis by (simp add: e)
  next
    case False then show ?thesis using lo by (simp add: e)
  qed
  show "x < 2 powi (exponent x + 1)"
  proof (cases "2 powi (bp - bq) \<le> x")
    case True then show ?thesis using hi by (simp add: e)
  next
    case False then show ?thesis by (simp add: e)
  qed
qed

lemma round_half_even_error: "\<bar>of_int (round_half_even x) - x\<bar> \<le> 1 / 2"
proof -
  have "of_int \<lfloor>x\<rfloor> \<le> x" "x < of_int \<lfloor>x\<rfloor> + 1" by linarith+
  then show ?thesis by (auto simp: round_half_even_def Let_def)
qed

lemma round_half_even_unique:
  assumes "\<bar>x - of_int n\<bar> < 1 / 2"
  shows "round_half_even x = n"
proof -
  have b: "of_int n - 1 / 2 < x" "x < of_int n + 1 / 2" using assms by linarith+
  have "\<lfloor>x\<rfloor> = n \<or> \<lfloor>x\<rfloor> = n - 1"
  proof (cases "of_int n \<le> x")
    case True
    then have "\<lfloor>x\<rfloor> = n" using b(2) by (intro floor_unique) linarith+
    then show ?thesis by simp
  next
    case False
    then have "\<lfloor>x\<rfloor> = n - 1" using b(1) by (intro floor_unique) (simp, linarith)+
    then show ?thesis by simp
  qed
  then show ?thesis
  proof
    assume f: "\<lfloor>x\<rfloor> = n"
    then show ?thesis using b by (simp add: round_half_even_def Let_def)
  next
    assume f: "\<lfloor>x\<rfloor> = n - 1"
    then show ?thesis using b by (simp add: round_half_even_def Let_def)
  qed
qed

lemma round_half_even_of_int: "round_half_even (of_int n) = n"
  by (rule round_half_even_unique) simp

lemma fl_pos:
  assumes "0 < x"
  shows "fl x = of_int (round_half_even (x / 2 powi (exponent x - 52))) * 2 powi (exponent x - 52)"
  using assms by (simp add: fl_def Let_def)

lemma fl_error:
  assumes "0 < x"
  shows "\<bar>fl x - x\<bar> \<le> x * 2 powi (- 53)"
proof -
  define u :: rat where "u = 2 powi (exponent x - 52)"
  have u: "0 < u" by (simp add: u_def)
  have "u = 2 powi (exponent x) * 2 powi (- 52)"
    unfolding u_def using power_int_add[of "2::rat" "exponent x" "- 52"] by simp
  also have "\<dots> \<le> x * 2 powi (- 52)"
    using exponent_bounds(1)[OF assms] by (intro mult_right_mono) simp_all
  finally have ux: "u \<le> x * 2 powi (- 52)" .
  have "fl x - x = (of_int (round_half_even (x / u)) - x / u) * u"
    using u by (simp add: fl_pos[OF assms] u_def[symmetric] algebra_simps)
  then have "\<bar>fl x - x\<bar> = \<bar>of_int (round_half_even (x / u)) - x / u\<bar> * u"
    using u by (simp add: abs_mult)
  also have "\<dots> \<le> (1 / 2) * u"
    using round_half_even_error[of "x / u"] u by (intro mult_right_mono) simp_all
  also have "\<dots> \<le> (1 / 2) * (x * 2 powi (- 52))"
    using ux by simp
  also have "\<dots> = x * 2 powi (- 53)"
    using power_int_diff[of "2::rat" "- 52" 1] by simp
  finally show ?thesis .
qed

lemma fl_exact:
  assumes "0 < m" and "m < 2 ^ 53"
  shows "fl (of_int m / 2 ^ j) = of_int m / 2 ^ j"
proof -
  define x :: rat where "x = of_int m / 2 ^ j"
  have x: "0 < x" using assms(1) by (simp add: x_def)
  have "of_int m < (2::rat) ^ 53"
    using assms(2) of_int_less_pow2[of 53 m] by simp
  then have "x < 2 ^ 53 / 2 ^ j"
    by (simp add: x_def divide_strict_right_mono)
  also have "\<dots> = (2::rat) powi (53 - int j)"
    using power_int_diff[of "2::rat" 53 "int j"] by simp
  finally have "2 powi (exponent x) < (2::rat) powi (53 - int j)"
    using exponent_bounds(1)[OF x] by linarith
  then have "exponent x < 53 - int j"
    using power_int_increasing[of "53 - int j" "exponent x" "2::rat"] by (cases "exponent x < 53 - int j") auto
  then have "52 - exponent x = int j + int (nat (52 - exponent x - int j))"
    by simp
  then obtain k :: nat where k: "52 - exponent x = int j + int k" ..
  have u: "(2::rat) powi (exponent x - 52) = 1 / 2 ^ (j + k)"
  proof -
    have "exponent x - 52 = - int (j + k)" using k by simp
    then show ?thesis by (simp add: power_int_minus_divide del: of_nat_add)
  qed
  have "x / (1 / 2 ^ (j + k)) = of_int (m * 2 ^ k)"
    by (simp add: x_def power_add)
  then have "round_half_even (x / (1 / 2 ^ (j + k))) = m * 2 ^ k"
    by (simp only: round_half_even_of_int)
  then have "fl x = of_int (m * 2 ^ k) * (1 / 2 ^ (j + k))"
    by (simp only: fl_pos[OF x] u)
  also have "\<dots> = x"
    by (simp add: x_def power_add)
  finally show ?thesis by (simp add: x_def)
qed

lemma tie_dyadic:
  fixes N M f :: int
  assumes "0 < N" and "N \<le> M" and "M \<le> 100" and "20000 * N = (2 * f + 1) * M"
  shows "\<exists>m. 0 < m \<and> m \<le> 32 \<and> 32 * N = m * M"
proof -
  have "32 * (625 * N) = M * (2 * f + 1)" using assms(4) by simp
  then have d: "32 dvd M * (2 * f + 1)" by (metis dvd_triv_left)
  have "coprime (2::int) (2 * f + 1)"
    by (simp add: coprime_left_2_iff_odd)
  then have "coprime ((2::int) ^ 5) (2 * f + 1)"
    by (rule coprime_power_left_iff[THEN iffD2, OF disjI1])
  moreover have "(2::int) ^ 5 = 32" by simp
  ultimately have "coprime (32::int) (2 * f + 1)" by (simp only:)
  then have "32 dvd M" using d by (simp only: coprime_dvd_mult_left_iff)
  then obtain t where t: "M = 32 * t" ..
  have tr: "t = 1 \<or> t = 2 \<or> t = 3" using assms(1,2,3) t by arith
  have e: "625 * N = (2 * f + 1) * t" using assms(4) t by simp
  from tr show ?thesis
  proof (elim disjE)
    assume "t = 1"
    then show ?thesis using assms(1,2) t by (intro exI[of _ N]) simp
  next
    assume t2: "t = 2"
    then have "625 * N = 2 * (2 * f + 1)" using e by simp
    then have "N = 2 * ((2 * f + 1) - 312 * N)" by simp
    then obtain m where m: "N = 2 * m" ..
    show ?thesis using assms(1,2) t t2 m by (intro exI[of _ m]) simp
  next
    assume t3: "t = 3"
    then have "625 * N = 3 * (2 * f + 1)" using e by simp
    then have "N = 3 * ((2 * f + 1) - 208 * N)" by simp
    then obtain m where m: "N = 3 * m" ..
    show ?thesis using assms(1,2) t t3 m by (intro exI[of _ m]) simp
  qed
qed

lemma percent_error:
  assumes "0 < q" and "q \<le> 1"
  shows "\<bar>fl (fl q * 100) * 100 - 10000 * q\<bar> \<le> 30000 / 2 ^ 53"
proof -
  define eps :: rat where "eps = 2 powi (- 53)"
  have eps: "eps = 1 / 2 ^ 53" by (simp add: eps_def power_int_minus_divide)
  have e0: "0 < eps" "eps \<le> 1" by (simp_all add: eps)
  define a where "a = fl q"
  have ea: "\<bar>a - q\<bar> \<le> q * eps"
    unfolding a_def eps_def by (rule fl_error[OF assms(1)])
  have "q * eps \<le> 1 * eps" using assms(2) e0(1) by (intro mult_right_mono) simp_all
  then have qe: "q * eps \<le> eps" by simp
  have "q * eps < q * 1" using assms(1) by (intro mult_strict_left_mono) (simp_all add: eps)
  then have a0: "0 < a" using ea by linarith
  have a2: "a \<le> 2" using ea qe e0(2) assms(2) by linarith
  define y where "y = fl (a * 100)"
  have ey: "\<bar>y - a * 100\<bar> \<le> a * 100 * eps"
    unfolding y_def eps_def using a0 by (intro fl_error) simp
  have "a * 100 * eps \<le> 2 * 100 * eps" using a2 e0(1) by (intro mult_right_mono) simp_all
  then have "\<bar>y - a * 100\<bar> \<le> 200 * eps" using ey by simp
  moreover have "\<bar>a * 100 - 100 * q\<bar> \<le> 100 * eps"
  proof -
    have "\<bar>a * 100 - 100 * q\<bar> = 100 * \<bar>a - q\<bar>" by (simp add: abs_if)
    then show ?thesis using ea qe by linarith
  qed
  ultimately have "\<bar>y - 100 * q\<bar> \<le> 300 * eps" by linarith
  moreover have "\<bar>y * 100 - 10000 * q\<bar> = 100 * \<bar>y - 100 * q\<bar>" by (simp add: abs_if)
  ultimately have "\<bar>y * 100 - 10000 * q\<bar> \<le> 30000 * eps" by linarith
  then show ?thesis by (simp add: y_def a_def eps)
qed

lemma round_half_even_strict:
  assumes "x - of_int \<lfloor>x\<rfloor> \<noteq> 1 / 2"
  shows "\<bar>x - of_int (round_half_even x)\<bar> < 1 / 2"
proof -
  have "of_int \<lfloor>x\<rfloor> \<le> x" "x < of_int \<lfloor>x\<rfloor> + 1" by linarith+
  then show ?thesis using assms by (auto simp: round_half_even_def Let_def)
qed

lemma percent_round_agree:
  fixes U T :: nat
  assumes T: "0 < T" "T \<le> 100" and U: "U \<le> T"
  shows "round_half_even (fl (fl (of_nat U / of_nat T) * 100) * 100)
       = round_half_even (100 * of_nat U / of_nat T * 100)"
proof (cases "U = 0")
  case True
  then show ?thesis by (simp add: fl_def)
next
  case False
  define q :: rat where "q = of_nat U / of_nat T"
  have q0: "0 < q" using False T(1) by (simp add: q_def)
  have q1: "q \<le> 1" using U T(1) by (simp add: q_def)
  have Tr: "(0::rat) < of_nat T" using T(1) by simp
  define w where "w = 10000 * q"
  have wT: "w * of_nat T = 10000 * of_nat U" using Tr by (simp add: w_def q_def)
  have goal: "?thesis \<longleftrightarrow> round_half_even (fl (fl q * 100) * 100) = round_half_even w"
    by (simp add: q_def w_def)
  show ?thesis
  proof (cases "w - of_int \<lfloor>w\<rfloor> = 1 / 2")
    case True
    define f where "f = \<lfloor>w\<rfloor>"
    have "w = of_int f + 1 / 2" using True by (simp add: f_def)
    then have "(of_int f + 1 / 2) * of_nat T = 10000 * (of_nat U :: rat)" using wT by simp
    then have "(of_int (20000 * int U) :: rat) = of_int ((2 * f + 1) * int T)"
      by (simp add: algebra_simps)
    then have eq: "20000 * int U = (2 * f + 1) * int T" by (simp only: of_int_eq_iff)
    obtain m where m: "0 < m" "m \<le> 32" "32 * int U = m * int T"
      using tie_dyadic[OF _ _ _ eq] False U T(2) by auto
    have "(of_int (32 * int U) :: rat) = of_int (m * int T)" using m(3) by (simp only:)
    then have qm: "q = of_int m / 2 ^ 5" using Tr by (simp add: q_def field_simps)
    have "fl q = q" unfolding qm using m by (intro fl_exact) simp_all
    moreover have "q * 100 = of_int (25 * m) / 2 ^ 3" by (simp add: qm)
    then have "fl (q * 100) = q * 100" using m by (simp only:) (intro fl_exact, simp_all)
    ultimately have "fl (fl q * 100) * 100 = w" by (simp add: w_def)
    then show ?thesis unfolding goal by (simp only:)
  next
    case False
    define n where "n = round_half_even w"
    have A: "\<bar>w - of_int n\<bar> < 1 / 2"
      unfolding n_def using False by (rule round_half_even_strict)
    define D where "D = 10000 * int U - n * int T"
    have D: "(of_int D :: rat) = (w - of_int n) * of_nat T"
      using wT by (simp add: D_def algebra_simps)
    have "\<bar>(w - of_int n) * of_nat T\<bar> = \<bar>w - of_int n\<bar> * of_nat T"
      using Tr by (simp add: abs_mult)
    also have "\<dots> < (1 / 2) * of_nat T"
      using A Tr by (intro mult_strict_right_mono)
    finally have "\<bar>of_int D :: rat\<bar> * 2 < of_nat T" by (simp add: D)
    then have "(of_int (\<bar>D\<bar> * 2) :: rat) < of_int (int T)" by simp
    then have "\<bar>D\<bar> * 2 < int T" by (simp only: of_int_less_iff)
    then have "\<bar>D\<bar> * 2 \<le> int T - 1" by simp
    then have "(of_int (\<bar>D\<bar> * 2) :: rat) \<le> of_int (int T - 1)" by (simp only: of_int_le_iff)
    then have "\<bar>of_int D :: rat\<bar> * 2 \<le> of_nat T - 1" by simp
    then have "\<bar>w - of_int n\<bar> * of_nat T * 2 \<le> of_nat T - 1"
      using Tr by (simp add: D abs_mult)
    then have "\<bar>w - of_int n\<bar> * (of_nat T * 2) \<le> of_nat T - 1" by (simp add: mult.assoc)
    then have "\<bar>w - of_int n\<bar> \<le> (of_nat T - 1) / (of_nat T * 2)"
      using Tr by (simp add: pos_le_divide_eq)
    also have "\<dots> = 1 / 2 - 1 / (2 * of_nat T)"
      using Tr by (simp add: field_simps)
    finally have B: "\<bar>w - of_int n\<bar> \<le> 1 / 2 - 1 / (2 * of_nat T)" .
    have "(of_nat T :: rat) \<le> 100" using T(2) by simp
    then have "1 / (2 * 100) \<le> 1 / (2 * (of_nat T :: rat))"
      using Tr by (intro divide_left_mono) simp_all
    then have m: "(30000 / 2 ^ 53 :: rat) < 1 / (2 * of_nat T)" by simp
    have C: "\<bar>fl (fl q * 100) * 100 - w\<bar> \<le> 30000 / 2 ^ 53"
      unfolding w_def by (rule percent_error[OF q0 q1])
    have "\<bar>fl (fl q * 100) * 100 - of_int n\<bar> < 1 / 2"
      using B C m by linarith
    then have "round_half_even (fl (fl q * 100) * 100) = n"
      by (rule round_half_even_unique)
    then show ?thesis unfolding goal n_def .
  qed
qed

lemma py_round_percent:
  fixes U T :: nat
  assumes "0 < T" and "T \<le> 100" and "U \<le> T"
  shows "py_round (fl (fl (of_nat U / of_nat T) * 100)) 2 = py_round (100 * of_nat U / of_nat T) 2"
  using percent_round_agree[OF assms] by (simp add: py_round_def)

section \<open>Slices, appended checks and the loops\<close>

lemma slice_last: "slice_from xs (- int n) = (if n = 0 then xs else drop (length xs - n) xs)"
  by (auto simp: slice_from_def Let_def max_def nat_diff_distrib')

lemma append_check_eq: "append_check cs c = drop (Suc (length cs) - 100) (cs @ [c])"
  using slice_last[of "cs @ [c]" 100] by (simp add: append_check_def Let_def)

lemma append_check_nonempty: "append_check cs c \<noteq> []"
  by (simp add: append_check_eq)

lemma append_check_length: "length (append_check cs c) \<le> 100"
  by (simp add: append_check_eq)

lemma set_update_subset: "set (AList.update k v ms) \<subseteq> insert (k, v) (set ms)"
  by (induction ms) auto

lemma set_delete_subset: "set (AList.delete k ms) \<subseteq> set ms"
  by (auto simp: AList.delete_eq)

lemma store_check_snd:
  "snd (store_check u c now ms) =
     AList.update u
       ((case map_of ms u of
           None \<Rightarrow> \<lparr>url = u, created_at = now, checks = [], monitor_id = None\<rparr>
         | Some m0 \<Rightarrow> m0)\<lparr>checks := append_check (checks_of ms u) c\<rparr>) ms"
  by (simp add: store_check_def Let_def checks_of_def split: option.splits)

lemma store_monitor_snd:
  "snd (store_monitor u c now t ms) =
     AList.update u \<lparr>url = u, created_at = now, checks = [c],
                     monitor_id = Some (str_int (py_int (fl (t * 1000))))\<rparr> ms"
  by (simp add: store_monitor_def Let_def)

lemma store_check_ok:
  assumes "\<forall>e \<in> set ms. entry_ok e" and "valid_url u"
  shows "\<forall>e \<in> set (snd (store_check u c now ms)). entry_ok e"
proof
  fix e assume "e \<in> set (snd (store_check u c now ms))"
  then have "e \<in> set ms \<or> e = (u, (case map_of ms u of
           None \<Rightarrow> \<lparr>url = u, created_at = now, checks = [], monitor_id = None\<rparr>
         | Some m0 \<Rightarrow> m0)\<lparr>checks := append_check (checks_of ms u) c\<rparr>)"
    using set_update_subset unfolding store_check_snd by fastforce
  then show "entry_ok e"
  proof
    assume "e \<in> set ms" then show ?thesis using assms by blast
  next
    assume e: "e = (u, (case map_of ms u of
           None \<Rightarrow> \<lparr>url = u, created_at = now, checks = [], monitor_id = None\<rparr>
         | Some m0 \<Rightarrow> m0)\<lparr>checks := append_check (checks_of ms u) c\<rparr>)"
    show ?thesis
    proof (cases "map_of ms u")
      case None
      then show ?thesis using assms(2)
        by (simp add: e entry_ok_def append_check_nonempty append_check_length)
    next
      case (Some m0)
      then have "(u, m0) \<in> set ms" by (rule map_of_SomeD)
      then have "entry_ok (u, m0)" using assms(1) by blast
      then show ?thesis using Some
        by (simp add: e entry_ok_def append_check_nonempty append_check_length)
    qed
  qed
qed

lemma store_monitor_ok:
  assumes "\<forall>e \<in> set ms. entry_ok e" and "valid_url u"
  shows "\<forall>e \<in> set (snd (store_monitor u c now t ms)). entry_ok e"
proof
  fix e assume "e \<in> set (snd (store_monitor u c now t ms))"
  then have "e \<in> set ms \<or> e = (u, \<lparr>url = u, created_at = now, checks = [c],
                     monitor_id = Some (str_int (py_int (fl (t * 1000))))\<rparr>)"
    using set_update_subset unfolding store_monitor_snd by fastforce
  then show "entry_ok e"
    using assms by (auto simp: entry_ok_def)
qed

lemma step_cases:
  assumes "P ms"
    and "\<And>u c now. valid_url u \<Longrightarrow> P (snd (store_check u c now ms))"
    and "\<And>u c now t. valid_url u \<Longrightarrow> P (snd (store_monitor u c now t ms))"
    and "\<And>u. P (AList.delete u ms)"
  shows "P (step key ms req)"
proof (cases req)
  case (GetMonitors apikey url_param io now)
  then show ?thesis using assms(1,2)
    by (simp add: get_monitors_def split_beta Let_def split: sum.splits option.splits)
next
  case (AddMonitor apikey u io now t)
  then show ?thesis using assms(1,3)
    by (simp add: add_monitor_logic_def split_beta Let_def split: sum.splits)
next
  case (AddResumed u io now t)
  then show ?thesis using assms(1,3) by (simp split: sum.splits)
next
  case (RemoveMonitor apikey u)
  then show ?thesis using assms(1,4) by (simp add: remove_monitor_def split: sum.splits)
next
  case (RemoveMonitorGet apikey u)
  then show ?thesis using assms(1,4) by (simp add: remove_monitor_get_def split: sum.splits)
next
  case (GetMonitorHistory apikey u limit)
  then show ?thesis using assms(1) by simp
next
  case GetStats
  then show ?thesis using assms(1) by simp
next
  case Root
  then show ?thesis using assms(1) by simp
next
  case ListAllEndpoints
  then show ?thesis using assms(1) by simp
qed

lemma step_ok:
  assumes "\<forall>e \<in> set ms. entry_ok e"
  shows "\<forall>e \<in> set (step key ms req). entry_ok e"
proof (rule step_cases)
  show "\<forall>e \<in> set ms. entry_ok e" by (rule assms)
  show "\<forall>e\<in>set (snd (store_check u c now ms)). entry_ok e" if "valid_url u" for u c now
    using assms that by (rule store_check_ok)
  show "\<forall>e\<in>set (snd (store_monitor u c now t ms)). entry_ok e" if "valid_url u" for u c now t
    using assms that by (rule store_monitor_ok)
  show "\<forall>e\<in>set (AList.delete u ms). entry_ok e" for u
    using assms set_delete_subset[of u ms] by blast
qed

lemma step_distinct:
  assumes "distinct (map fst ms)"
  shows "distinct (map fst (step key ms req))"
  by (rule step_cases)
     (simp_all add: assms store_check_snd store_monitor_snd distinct_update distinct_delete)

lemma run_ok: "\<forall>e \<in> set (run key reqs). entry_ok e"
  unfolding run_def
  by (induction reqs rule: rev_induct) (simp_all add: step_ok)

lemma run_distinct: "distinct (map fst (run key reqs))"
  unfolding run_def
  by (induction reqs rule: rev_induct) (simp_all add: step_distinct)

lemma stats_loop_eq:
  "stats_loop ms (a, b, ds, us) =
     (a + length (filter last_up ms), b + length (filter last_not_up ms),
      ds @ map down_entry_of (filter last_not_up ms),
      us @ map up_entry_of (filter last_up ms))"
  by (induction ms arbitrary: a b ds us)
     (auto simp: last_up_def last_not_up_def up_entry_of_def down_entry_of_def Let_def)

lemma get_stats_eq:
  "get_stats ms =
     \<lparr>total_monitors = length ms,
      up_monitors = length (filter last_up ms),
      down_monitors = length (filter last_not_up ms),
      overall_uptime =
        (if ms = [] then 0
         else py_round (fl (fl (of_nat (length (filter last_up ms)) / of_nat (length ms)) * 100)) 2),
      up_urls = map up_entry_of (filter last_up ms),
      down_urls = map down_entry_of (filter last_not_up ms)\<rparr>"
  by (simp add: get_stats_def stats_loop_eq Let_def)

lemma up_checks_eq: "up_checks cs = length (filter (\<lambda>c. status c = ''up'') cs)"
  by (induction cs) auto

lemma up_down_length:
  assumes "\<forall>c \<in> set cs. status c = ''up'' \<or> status c = ''down''"
  shows "length (filter (\<lambda>c. status c = ''up'') cs) + length (filter (\<lambda>c. status c = ''down'') cs)
           = length cs"
  using assms by (induction cs) auto

lemma monitor_summaries_length:
  "length (monitor_summaries ms) = length (filter (\<lambda>e. checks (snd e) \<noteq> []) ms)"
  by (induction ms) (auto simp: Let_def)

lemma checks_of_store_check:
  "checks_of (snd (store_check u c now ms)) u = append_check (checks_of ms u) c"
  by (simp add: store_check_snd checks_of_def update_conv')

lemma checks_of_foldl:
  "checks_of (foldl (\<lambda>s (c, now). snd (store_check u c now s)) ms crs) u
     = foldl append_check (checks_of ms u) (map fst crs)"
  by (induction crs arbitrary: ms) (simp_all add: checks_of_store_check split_beta)

lemma foldl_append_check:
  "length init \<le> 100 \<Longrightarrow>
   foldl append_check init cs = drop (length (init @ cs) - 100) (init @ cs)"
proof (induction cs rule: rev_induct)
  case Nil
  then show ?case by simp
next
  case (snoc c cs)
  define xs where "xs = init @ cs"
  have r: "foldl append_check init cs = drop (length xs - 100) xs"
    using snoc by (simp add: xs_def)
  have "foldl append_check init (cs @ [c]) = append_check (drop (length xs - 100) xs) c"
    by (simp add: r)
  also have "\<dots> = drop (Suc (length xs - (length xs - 100)) - 100) (drop (length xs - 100) xs @ [c])"
    by (simp add: append_check_eq)
  also have "drop (length xs - 100) xs @ [c] = drop (length xs - 100) (xs @ [c])"
    by simp
  also have "drop (Suc (length xs - (length xs - 100)) - 100) (drop (length xs - 100) (xs @ [c]))
      = drop (Suc (length xs) - 100) (xs @ [c])"
    unfolding drop_drop by (rule arg_cong2[where f=drop]) auto
  finally show ?case by (simp add: xs_def)
qed

lemma checks_of_bounded:
  assumes "\<forall>e \<in> set ms. entry_ok e"
  shows "length (checks_of ms u) \<le> 100"
proof (cases "map_of ms u")
  case None
  then show ?thesis by (simp add: checks_of_def)
next
  case (Some m)
  then have "(u, m) \<in> set ms" by (rule map_of_SomeD)
  then have "entry_ok (u, m)" using assms by blast
  then show ?thesis using Some by (simp add: checks_of_def entry_ok_def)
qed


lemma ex_store_eq:
  "ex_store = [(''http://a.test'',
     \<lparr>url = ''http://a.test'', created_at = ''2024-01-01T00:00:00'',
      checks = [\<lparr>status = ''up'', status_code = Some 200, response_time = 125,
                 last_checked = ''2024-01-01T00:00:00'', error = None\<rparr>,
                \<lparr>status = ''down'', status_code = None, response_time = 10000,
                 last_checked = ''2024-01-01T00:01:00'', error = Some ''timed out''\<rparr>],
      monitor_id = Some ''1704067200125''\<rparr>)]"
  by code_simp

section \<open>Bounded history\<close>

text \<open>
  Claim C1. Take any store that requests have built and any URL, and append any sequence
  of check results to that URL's monitor, each by the code of \<open>get_monitors\<close> that stores
  a check (creating the record when the URL is new). Afterwards the monitor holds at most
  100 checks, namely the last 100 of its earlier history followed by the appended
  checks, oldest first; once 100 or more have been appended it holds exactly 100, the
  most recent 100 of the appended ones in their order.
\<close>

theorem bounded_history:
  "let old = checks_of (run key reqs) u;
       kept = checks_of (foldl (\<lambda>s (c, now). snd (store_check u c now s)) (run key reqs) crs) u
   in length kept \<le> 100
      \<and> kept = drop (length (old @ map fst crs) - 100) (old @ map fst crs)
      \<and> (100 \<le> length crs \<longrightarrow>
           length kept = 100 \<and> kept = drop (length crs - 100) (map fst crs))"
proof -
  define old where "old = checks_of (run key reqs) u"
  define kept where
    "kept = checks_of (foldl (\<lambda>s (c, now). snd (store_check u c now s)) (run key reqs) crs) u"
  have b: "length old \<le> 100"
    unfolding old_def by (rule checks_of_bounded) (rule run_ok)
  have k: "kept = drop (length (old @ map fst crs) - 100) (old @ map fst crs)"
    unfolding kept_def checks_of_foldl old_def[symmetric] by (rule foldl_append_check[OF b])
  have l: "length kept \<le> 100" by (simp add: k)
  have "length kept = 100 \<and> kept = drop (length crs - 100) (map fst crs)" if "100 \<le> length crs"
    using that by (simp add: k)
  with k l show ?thesis unfolding Let_def old_def kept_def by blast
qed


theorem bounded_history_witness:
  "100 \<le> length ex_checks
   \<and> length (checks_of (foldl (\<lambda>s (c, now). snd (store_check ''http://a.test'' c now s))
                         (run ex_key []) ex_checks) ''http://a.test'') = 100
   \<and> checks_of (foldl (\<lambda>s (c, now). snd (store_check ''http://a.test'' c now s))
                 (run ex_key []) ex_checks) ''http://a.test''
       = drop (length ex_checks - 100) (map fst ex_checks)"
proof -
  have h: "100 \<le> length ex_checks" by (simp add: ex_checks_def)
  show ?thesis
    using h bounded_history[of ex_key "[]" "''http://a.test''" ex_checks]
    unfolding Let_def by blast
qed

section \<open>Stored histories are never empty\<close>

text \<open>
  Claim C10. In every store that a sequence of requests has built from the empty store
  (including the second half of an add that resumes after other requests), every monitor
  has a non-empty checks list. Hence the listing has one summary per monitor and the
  fleet statistics count every monitor as up or as down.
\<close>

theorem stored_history_nonempty:
  "(\<forall>e \<in> set (run key reqs). checks (snd e) \<noteq> [])
   \<and> length (monitor_summaries (run key reqs)) = length (run key reqs)
   \<and> up_monitors (get_stats (run key reqs)) + down_monitors (get_stats (run key reqs))
       = total_monitors (get_stats (run key reqs))"
proof -
  have ne: "\<forall>e \<in> set (run key reqs). checks (snd e) \<noteq> []"
    using run_ok[of key reqs] by (simp add: entry_ok_def)
  then have f: "filter (\<lambda>e. checks (snd e) \<noteq> []) (run key reqs) = run key reqs"
    by simp
  have "length (filter last_up (run key reqs)) + length (filter last_not_up (run key reqs))
          = length (run key reqs)"
    using ne sum_length_filter_compl[of last_up "run key reqs"]
    by (simp add: last_up_def last_not_up_def cong: filter_cong)
  with ne f show ?thesis
    by (simp add: monitor_summaries_length get_stats_eq)
qed

theorem stored_history_nonempty_witness:
  "ex_store \<noteq> []
   \<and> list_all (\<lambda>e. checks (snd e) \<noteq> []) ex_store
   \<and> length (monitor_summaries ex_store) = length ex_store
   \<and> up_monitors (get_stats ex_store) + down_monitors (get_stats ex_store)
       = total_monitors (get_stats ex_store)"
proof -
  have h: "ex_store \<noteq> []" by (simp add: ex_store_eq)
  show ?thesis
    using h stored_history_nonempty[of ex_key ex_requests]
    unfolding ex_store_def list_all_iff by blast
qed

section \<open>Uptime percentage of one monitor\<close>

text \<open>
  Claim C2. For a monitor that holds at most 100 checks (every stored monitor does), all
  with status "up" or "down", U of the first and D of the second,
  \<open>calculate_uptime_percentage\<close> returns \<open>round(100*U/(U+D), 2)\<close>, the exactly rounded
  percentage, and 0 when the checks list is empty.
\<close>

theorem uptime_percentage:
  assumes "\<forall>c \<in> set (checks m). status c = ''up'' \<or> status c = ''down''"
    and "length (checks m) \<le> 100"
  shows "calculate_uptime_percentage m =
     (let U = length (filter (\<lambda>c. status c = ''up'') (checks m));
          D = length (filter (\<lambda>c. status c = ''down'') (checks m))
      in if checks m = [] then 0 else py_round (100 * of_nat U / of_nat (U + D)) 2)"
proof (cases "checks m = []")
  case True
  then show ?thesis by (simp add: calculate_uptime_percentage_def)
next
  case False
  define U where "U = length (filter (\<lambda>c. status c = ''up'') (checks m))"
  define D where "D = length (filter (\<lambda>c. status c = ''down'') (checks m))"
  have t: "U + D = length (checks m)"
    unfolding U_def D_def by (rule up_down_length[OF assms(1)])
  have p: "0 < U + D" "U + D \<le> 100" "U \<le> U + D"
    using False assms(2) t by simp_all
  have "calculate_uptime_percentage m = py_round (fl (fl (of_nat U / of_nat (U + D)) * 100)) 2"
    using False by (simp add: calculate_uptime_percentage_def up_checks_eq U_def[symmetric] t)
  also have "\<dots> = py_round (100 * of_nat U / of_nat (U + D)) 2"
    by (rule py_round_percent[OF p])
  finally show ?thesis using False by (simp add: Let_def U_def D_def)
qed

lemma round_fifty: "py_round (100 * of_nat 1 / of_nat (1 + 1)) 2 = 50"
  by code_simp

theorem uptime_percentage_witness:
  "length (checks (snd (hd ex_store))) \<le> 100
   \<and> calculate_uptime_percentage (snd (hd ex_store)) = py_round (100 * of_nat 1 / of_nat (1 + 1)) 2
   \<and> calculate_uptime_percentage (snd (hd ex_store)) = 50"
proof -
  have h: "\<forall>c \<in> set (checks (snd (hd ex_store))). status c = ''up'' \<or> status c = ''down''"
    by (simp add: ex_store_eq)
  have l: "length (checks (snd (hd ex_store))) \<le> 100"
    by (simp add: ex_store_eq)
  have "calculate_uptime_percentage (snd (hd ex_store))
          = py_round (100 * of_nat 1 / of_nat (1 + 1)) 2"
    using uptime_percentage[OF h l] by (simp add: ex_store_eq)
  then show ?thesis using l round_fifty by simp
qed

section \<open>Fleet statistics\<close>

lemma filter_last_down:
  assumes "\<forall>e \<in> set ms. \<forall>c \<in> set (checks (snd e)). status c = ''up'' \<or> status c = ''down''"
  shows "filter last_not_up ms = filter last_down ms"
proof (rule filter_cong[OF refl])
  fix e assume "e \<in> set ms"
  with assms have "\<forall>c \<in> set (checks (snd e)). status c = ''up'' \<or> status c = ''down''" by blast
  then have "checks (snd e) \<noteq> [] \<Longrightarrow>
      status (last (checks (snd e))) = ''up'' \<or> status (last (checks (snd e))) = ''down''"
    using last_in_set by blast
  then show "last_not_up e = last_down e"
    by (auto simp: last_not_up_def last_down_def)
qed

text \<open>
  On a store whose checks have status "up" or "down", \<open>get_stats\<close> counts every monitor
  in \<open>total_monitors\<close>, counts and lists as up exactly the monitors whose last check is
  "up" and as down exactly those whose last check is "down", in the order of the store;
  a monitor without checks is in neither. \<open>overall_uptime\<close> is the code's double
  computation \<open>round(up / total * 100, 2)\<close>.
\<close>

lemma get_stats_by_last_status:
  assumes "\<forall>e \<in> set ms. \<forall>c \<in> set (checks (snd e)). status c = ''up'' \<or> status c = ''down''"
  shows "get_stats ms =
     \<lparr>total_monitors = length ms,
      up_monitors = length (filter last_up ms),
      down_monitors = length (filter last_down ms),
      overall_uptime =
        (if ms = [] then 0
         else py_round (fl (fl (of_nat (length (filter last_up ms)) / of_nat (length ms)) * 100)) 2),
      up_urls = map up_entry_of (filter last_up ms),
      down_urls = map down_entry_of (filter last_down ms)\<rparr>"
  unfolding get_stats_eq filter_last_down[OF assms] by simp

text \<open>With at most 100 monitors that is the exactly rounded \<open>round(100 * up / total, 2)\<close>.\<close>

lemma overall_uptime_small:
  assumes "ms \<noteq> []" and "length ms \<le> 100"
  shows "overall_uptime (get_stats ms)
           = py_round (100 * of_nat (length (filter last_up ms)) / of_nat (length ms)) 2"
proof -
  have "overall_uptime (get_stats ms)
          = py_round (fl (fl (of_nat (length (filter last_up ms)) / of_nat (length ms)) * 100)) 2"
    using assms(1) by (simp add: get_stats_eq)
  also have "\<dots> = py_round (100 * of_nat (length (filter last_up ms)) / of_nat (length ms)) 2"
    using assms by (intro py_round_percent) simp_all
  finally show ?thesis .
qed

text \<open>The scenario A last up, B last down, C without history: 3, 1, 1 and 33.33.\<close>

lemma fleet_scenario:
  "get_stats ex_fleet =
     \<lparr>total_monitors = 3, up_monitors = 1, down_monitors = 1, overall_uptime = 3333 / 100,
      up_urls = [\<lparr>ue_url = ''http://a.test'', ue_status = ''up'', ue_response_time = 12,
                  ue_last_checked = ''2024-01-01T00:00:00''\<rparr>],
      down_urls = [\<lparr>de_url = ''http://b.test'', de_status = ''down'', de_response_time = 7,
                    de_last_checked = ''2024-01-01T00:00:01'', de_error = None\<rparr>]\<rparr>"
  by code_simp

lemma length_filter_less_upt: "length (filter (\<lambda>i. i < k) [0..<n]) = min k n"
  by (induction n) auto

lemma ex_fleet160_counts:
  "length ex_fleet160 = 160"
  "length (filter last_up ex_fleet160) = 23"
  "length (filter last_not_up ex_fleet160) = 137"
proof -
  show l: "length ex_fleet160 = 160" by (simp add: ex_fleet160_def)
  have "length (filter last_up ex_fleet160) = length (filter (\<lambda>i. i < 23) [0..<160])"
    by (simp add: ex_fleet160_def filter_map o_def last_up_def)
  then show u: "length (filter last_up ex_fleet160) = 23"
    by (simp add: length_filter_less_upt)
  have "filter last_not_up ex_fleet160 = filter (\<lambda>e. \<not> last_up e) ex_fleet160"
    by (rule filter_cong[OF refl]) (auto simp: ex_fleet160_def last_up_def last_not_up_def)
  then show "length (filter last_not_up ex_fleet160) = 137"
    using sum_length_filter_compl[of last_up ex_fleet160] l u by simp
qed

lemma round_tie_float: "py_round (fl (fl (23 / 160) * 100)) 2 = 1437 / 100"
  by code_simp

lemma round_tie_exact: "py_round (100 * 23 / 160) 2 = 1438 / 100"
  by code_simp

text \<open>
  Claim C5 on a store of 160 monitors of which 23 are last up. The exact percentage is
  14.375, which rounds to 14.38. The code divides first: the double nearest to 23/160
  is below it, the product with 100 is the double 14.374999999999998, and
  \<open>overall_uptime\<close> is 14.37.
\<close>

theorem fleet_uptime_tie:
  "total_monitors (get_stats ex_fleet160) = 160
   \<and> up_monitors (get_stats ex_fleet160) = 23
   \<and> down_monitors (get_stats ex_fleet160) = 137
   \<and> overall_uptime (get_stats ex_fleet160) = 1437 / 100
   \<and> py_round (100 * 23 / 160) 2 = 1438 / 100"
proof -
  have "ex_fleet160 \<noteq> []" using ex_fleet160_counts(1) by auto
  then show ?thesis
    using round_tie_float round_tie_exact
    by (simp add: get_stats_eq ex_fleet160_counts)
qed

section \<open>Classification of a probe\<close>

lemma valid_url_nonempty: "valid_url u \<Longrightarrow> u \<noteq> []"
  by (auto simp: valid_url_def startswith_def)

text \<open>
  Claim C3. When the GET obtains a response, the check result is "up" exactly when the
  status code is below 400 and "down" exactly when it is 400 or more, the status code is
  recorded and the error is absent. When the GET raises (timeout, connection or DNS
  failure), the result is "down", without status code and with the error text. The
  witness covers 399, 400 and a timeout.
\<close>

theorem probe_classification:
  "(outcome io = Response code \<longrightarrow>
      (\<exists>c. check_url_status u io = Inr c
           \<and> (status c = ''up'') = (code < 400)
           \<and> (status c = ''down'') = (400 \<le> code)
           \<and> status_code c = Some code \<and> error c = None))
   \<and> (outcome io = RaisedException msg \<longrightarrow>
      (\<exists>c. check_url_status u io = Inr c
           \<and> status c = ''down'' \<and> status_code c = None \<and> error c = Some msg))"
  by (simp add: check_url_status_def)

theorem probe_classification_witness:
  "(\<exists>c. check_url_status ''http://a.test'' (ex_io_up\<lparr>outcome := Response 399\<rparr>) = Inr c
        \<and> status c = ''up'' \<and> status_code c = Some 399 \<and> error c = None)
   \<and> (\<exists>c. check_url_status ''http://a.test'' (ex_io_up\<lparr>outcome := Response 400\<rparr>) = Inr c
        \<and> status c = ''down'' \<and> status_code c = Some 400 \<and> error c = None)
   \<and> (\<exists>c. check_url_status ''http://a.test'' ex_io_timeout = Inr c
        \<and> status c = ''down'' \<and> status_code c = None \<and> error c = Some ''timed out'')"
  using probe_classification[of "ex_io_up\<lparr>outcome := Response 399\<rparr>" 399 "''http://a.test''"]
        probe_classification[of "ex_io_up\<lparr>outcome := Response 400\<rparr>" 400 "''http://a.test''"]
        probe_classification[of ex_io_timeout _ "''http://a.test''" "''timed out''"]
  by (simp add: ex_io_timeout_def) blast

section \<open>Probe failures are data\<close>

text \<open>
  Claim C4. For every outcome of the request that is a response or an exception derived
  from \<open>Exception\<close>, \<open>check_url_status\<close> returns a check result; when the request raised,
  that result is "down" with the exception text as error and the rounded elapsed
  milliseconds as response time. Its caller \<open>get_monitors\<close> then answers normally for a
  well-formed URL and stores that result as the monitor's latest check.
\<close>

theorem probe_never_propagates:
  assumes "\<forall>b. outcome io \<noteq> RaisedBaseException b"
  shows "\<exists>c. check_url_status u io = Inr c
           \<and> (\<forall>msg. outcome io = RaisedException msg \<longrightarrow>
                 c = \<lparr>status = ''down'', status_code = None,
                      response_time = py_round (fl (fl (end_time io - start_time io) * 1000)) 2,
                      last_checked = checked_at io, error = Some msg\<rparr>)
           \<and> (valid_url u \<longrightarrow>
                 (\<exists>r ms'. get_monitors (Some u) io now ms = (Inr (Single r), ms')
                         \<and> mr_status r = status c \<and> last (checks_of ms' u) = c))"
proof (cases "outcome io")
  case (Response code)
  then show ?thesis
    using checks_of_store_check[of u _ now ms]
    by (simp add: check_url_status_def get_monitors_def valid_url_nonempty split_beta
          store_check_def Let_def append_check_eq)
next
  case (RaisedException msg)
  then show ?thesis
    using checks_of_store_check[of u _ now ms]
    by (simp add: check_url_status_def get_monitors_def valid_url_nonempty split_beta
          store_check_def Let_def append_check_eq)
next
  case (RaisedBaseException b)
  then show ?thesis using assms by simp
qed


theorem probe_never_propagates_witness:
  "\<exists>c. check_url_status ''http://a.test'' ex_io_timeout = Inr c
      \<and> c = \<lparr>status = ''down'', status_code = None,
              response_time = py_round (fl (fl (1704067270 - 1704067260) * 1000)) 2,
              last_checked = ''2024-01-01T00:01:00'', error = Some ''timed out''\<rparr>
      \<and> (\<exists>r ms'. get_monitors (Some ''http://a.test'') ex_io_timeout ''2024-01-01T00:01:00'' []
                     = (Inr (Single r), ms')
                 \<and> mr_status r = status c \<and> last (checks_of ms' ''http://a.test'') = c)"
proof -
  have h: "\<forall>b. outcome ex_io_timeout \<noteq> RaisedBaseException b"
    by (simp add: ex_io_timeout_def)
  have v: "valid_url ''http://a.test''"
    by (simp add: valid_url_def startswith_def)
  have o: "outcome ex_io_timeout = RaisedException ''timed out''"
       "end_time ex_io_timeout = 1704067270" "start_time ex_io_timeout = 1704067260"
       "checked_at ex_io_timeout = ''2024-01-01T00:01:00''"
    by (simp_all add: ex_io_timeout_def)
  show ?thesis
    using probe_never_propagates[OF h, of "''http://a.test''" "''2024-01-01T00:01:00''" "[]"] v
    unfolding o by blast
qed

section \<open>Duplicate registration\<close>

lemma run_key_ok:
  assumes "map_of (run key reqs) u = Some m"
  shows "valid_url u" and "url m = u" and "checks m \<noteq> []"
proof -
  have "(u, m) \<in> set (run key reqs)" using assms by (rule map_of_SomeD)
  then have "entry_ok (u, m)" using run_ok by blast
  then show "valid_url u" and "url m = u" and "checks m \<noteq> []"
    by (simp_all add: entry_ok_def)
qed

lemma run_urls: "map (\<lambda>e. url (snd e)) (run key reqs) = map fst (run key reqs)"
  using run_ok[of key reqs] by (simp add: entry_ok_def)

text \<open>
  Claim C6. In any store that requests have built, adding a URL that is already a key
  fails with the error "URL is already being monitored" (status 400) and leaves the whole
  store, hence the existing record, as it was; this also holds for the endpoint with
  any API key. The \<open>url\<close> fields of the stored monitors are pairwise distinct.
\<close>

theorem no_duplicate_registration:
  assumes "map_of (run key reqs) u = Some m"
  shows "add_monitor_logic u io now t (run key reqs)
           = (Inl (HTTPException 400 ''URL is already being monitored''), run key reqs)
       \<and> step key (run key reqs) (AddMonitor apikey u io now t) = run key reqs
       \<and> map_of (run key reqs) u = Some m
       \<and> distinct (map (\<lambda>e. url (snd e)) (run key reqs))"
proof -
  have a: "add_monitor_logic u io now t (run key reqs)
           = (Inl (HTTPException 400 ''URL is already being monitored''), run key reqs)"
    using assms run_key_ok(1)[OF assms] by (simp add: add_monitor_logic_def)
  have "step key (run key reqs) (AddMonitor apikey u io now t) = run key reqs"
    by (simp add: a split: sum.splits)
  with a assms show ?thesis by (simp add: run_urls run_distinct)
qed

theorem no_duplicate_registration_witness:
  "add_monitor_logic ''http://a.test'' ex_io_up ''2024-01-01T00:02:00'' (1704067320 + 1 / 2) ex_store
     = (Inl (HTTPException 400 ''URL is already being monitored''), ex_store)
   \<and> map_of ex_store ''http://a.test'' = Some (snd (hd ex_store))"
proof -
  have h: "map_of (run ex_key ex_requests) ''http://a.test'' = Some (snd (hd ex_store))"
    unfolding ex_store_def[symmetric] by (simp add: ex_store_eq)
  show ?thesis
    using no_duplicate_registration[OF h] unfolding ex_store_def[symmetric] by blast
qed

section \<open>Removal and re-adding\<close>

lemma checks_of_store_monitor:
  "checks_of (snd (store_monitor u c now t ms)) u = [c]"
  by (simp add: store_monitor_snd checks_of_def update_conv')

lemma map_of_delete_same: "map_of (AList.delete u ms) u = None"
  by (simp add: delete_conv')

text \<open>
  Claim C7, as stated: after a removal, re-adding the URL starts with an empty history.
  On the example store (one monitor with two checks) the re-added monitor holds one
  check, the one \<open>add_monitor_logic\<close> makes before it stores the record, so its history
  is not empty.
\<close>

theorem readd_history_counterexample:
  "map_of ex_store ''http://a.test'' = Some (snd (hd ex_store))
   \<and> length (checks (snd (hd ex_store))) = 2
   \<and> remove_monitor ''http://a.test'' ex_store = (Inr ''Monitor removed for http://a.test'', [])
   \<and> checks_of (snd (add_monitor_logic ''http://a.test'' ex_io_up ''2024-01-01T00:02:00''
                         (1704067320 + 1 / 2)
                         (snd (remove_monitor ''http://a.test'' ex_store)))) ''http://a.test''
       = [\<lparr>status = ''up'', status_code = Some 200, response_time = 125,
            last_checked = ''2024-01-01T00:00:00'', error = None\<rparr>]
   \<and> checks_of (snd (add_monitor_logic ''http://a.test'' ex_io_up ''2024-01-01T00:02:00''
                         (1704067320 + 1 / 2)
                         (snd (remove_monitor ''http://a.test'' ex_store)))) ''http://a.test''
       \<noteq> []"
  by code_simp

text \<open>
  Claim C7, amended. For a URL that is a key of a store that requests have built:
  \<open>remove_monitor\<close> (and its GET twin) deletes the record; the history request for it
  then fails with "Monitor not found" (404); re-adding the URL, explicitly or through a
  probe, gives a history that holds exactly the check of the re-adding request, so no
  earlier check reappears. Removing a URL that is not a key fails with 404 and leaves the
  store as it was.
\<close>

theorem removal_clears_history:
  assumes "map_of (run key reqs) u = Some m" and "check_url_status u io = Inr c"
  shows "remove_monitor u (run key reqs)
           = (Inr (''Monitor removed for '' @ u), AList.delete u (run key reqs))
       \<and> remove_monitor_get u (run key reqs) = remove_monitor u (run key reqs)
       \<and> map_of (AList.delete u (run key reqs)) u = None
       \<and> get_monitor_history u limit (AList.delete u (run key reqs))
           = Inl (HTTPException 404 ''Monitor not found'')
       \<and> checks_of (snd (add_monitor_logic u io now t (AList.delete u (run key reqs)))) u = [c]
       \<and> checks_of (snd (get_monitors (Some u) io now (AList.delete u (run key reqs)))) u = [c]
       \<and> (map_of ms v = None \<longrightarrow>
            remove_monitor v ms = (Inl (HTTPException 404 ''Monitor not found''), ms))"
proof -
  have v: "valid_url u" using assms(1) by (rule run_key_ok)
  have n: "map_of (AList.delete u (run key reqs)) u = None" by (rule map_of_delete_same)
  have r: "remove_monitor u (run key reqs)
           = (Inr (''Monitor removed for '' @ u), AList.delete u (run key reqs))"
    using assms(1) by (simp add: remove_monitor_def)
  have g: "remove_monitor_get u (run key reqs) = remove_monitor u (run key reqs)"
    by (simp add: remove_monitor_def remove_monitor_get_def)
  have h: "get_monitor_history u limit (AList.delete u (run key reqs))
           = Inl (HTTPException 404 ''Monitor not found'')"
    by (simp add: get_monitor_history_def n)
  have a: "checks_of (snd (add_monitor_logic u io now t (AList.delete u (run key reqs)))) u = [c]"
    by (simp add: add_monitor_logic_def v n assms(2) split_beta checks_of_store_monitor)
  have e: "checks_of (AList.delete u (run key reqs)) u = []"
    by (simp add: checks_of_def n)
  have p: "checks_of (snd (get_monitors (Some u) io now (AList.delete u (run key reqs)))) u = [c]"
    by (simp add: get_monitors_def v valid_url_nonempty assms(2) split_beta
          checks_of_store_check e append_check_eq)
  have x: "map_of ms v = None \<longrightarrow>
            remove_monitor v ms = (Inl (HTTPException 404 ''Monitor not found''), ms)"
    by (simp add: remove_monitor_def)
  from r g n h a p x show ?thesis by blast
qed

theorem removal_clears_history_witness:
  "remove_monitor ''http://a.test'' ex_store
     = (Inr (''Monitor removed for '' @ ''http://a.test''), AList.delete ''http://a.test'' ex_store)
   \<and> get_monitor_history ''http://a.test'' 50 (AList.delete ''http://a.test'' ex_store)
       = Inl (HTTPException 404 ''Monitor not found'')
   \<and> checks_of (snd (add_monitor_logic ''http://a.test'' ex_io_timeout ''2024-01-01T00:02:00''
                         (1704067320 + 1 / 2) (AList.delete ''http://a.test'' ex_store)))
         ''http://a.test''
       = [\<lparr>status = ''down'', status_code = None, response_time = 10000,
            last_checked = ''2024-01-01T00:01:00'', error = Some ''timed out''\<rparr>]
   \<and> remove_monitor ''http://b.test'' ex_store
       = (Inl (HTTPException 404 ''Monitor not found''), ex_store)"
proof -
  have h: "map_of (run ex_key ex_requests) ''http://a.test'' = Some (snd (hd ex_store))"
    unfolding ex_store_def[symmetric] by (simp add: ex_store_eq)
  have c: "check_url_status ''http://a.test'' ex_io_timeout
             = Inr \<lparr>status = ''down'', status_code = None, response_time = 10000,
                    last_checked = ''2024-01-01T00:01:00'', error = Some ''timed out''\<rparr>"
    by code_simp
  have b: "map_of ex_store ''http://b.test'' = None"
    by (simp add: ex_store_eq)
  show ?thesis
    using removal_clears_history[OF h c, of 50 "''2024-01-01T00:02:00''" "1704067320 + 1 / 2"
            ex_store "''http://b.test''"] b
    unfolding ex_store_def[symmetric] by blast
qed

section \<open>History retrieval\<close>

text \<open>For a positive limit the slice is the last \<open>min limit K\<close> checks, oldest first.\<close>

lemma history_positive_limit:
  assumes "map_of ms u = Some m" and "0 < limit"
  shows "get_monitor_history u limit ms =
           Inr \<lparr>h_url = u,
                h_checks = drop (length (checks m) - nat limit) (checks m),
                h_total_checks = length (checks m),
                h_uptime_percentage = calculate_uptime_percentage m\<rparr>"
  using assms slice_last[of "checks m" "nat limit"]
  by (simp add: get_monitor_history_def)

text \<open>
  Claim C8 at limit 0: the slice \<open>checks[-0:]\<close> is \<open>checks[0:]\<close>, the whole list. On the
  example store, whose monitor has two checks, the limit 0 returns both checks, not none.
\<close>

theorem history_limit_zero:
  "get_monitor_history ''http://a.test'' 0 ex_store =
     Inr \<lparr>h_url = ''http://a.test'',
          h_checks = [\<lparr>status = ''up'', status_code = Some 200, response_time = 125,
                       last_checked = ''2024-01-01T00:00:00'', error = None\<rparr>,
                      \<lparr>status = ''down'', status_code = None, response_time = 10000,
                       last_checked = ''2024-01-01T00:01:00'', error = Some ''timed out''\<rparr>],
          h_total_checks = 2,
          h_uptime_percentage = 50\<rparr>"
  by code_simp

section \<open>Identifiers of monitor records\<close>

text \<open>
  Claim C9 on a first probe of an unseen URL: \<open>get_monitors\<close> stores a record without
  the key \<open>"id"\<close>, while the record that \<open>add_monitor_logic\<close> stored carries the decimal
  millisecond timestamp as its id.
\<close>

theorem implicit_monitor_without_id:
  "map_option monitor_id
     (map_of (snd (get_monitors (Some ''http://b.test'') ex_io_up ''2024-01-01T00:02:00'' ex_store))
        ''http://b.test'') = Some None
   \<and> map_option monitor_id (map_of ex_store ''http://a.test'') = Some (Some ''1704067200125'')"
  by code_simp

end
